theory Spec2Isabelle
  imports Main "HOL-Library.Word" "HOL-Library.Multiset"
begin

section \<open>Data model of cmd/events/main.go\<close>

text \<open>
  Go's \<open>int\<close> is a 64-bit two's complement integer on the platforms where this program
  compiles (\<open>endline := math.MaxInt64\<close> needs it): \<open>+\<close> and \<open>-\<close> wrap around, and the
  comparisons are the signed ones. Strings are byte sequences.
\<close>

type_synonym go_int = "64 word"

definition MaxInt64 :: go_int where
  "MaxInt64 = 9223372036854775807"

definition MinInt64 :: go_int where
  "MinInt64 = 9223372036854775808"

record Line =
  Num :: go_int
  Text :: string

record HunkDiff =
  Filename :: string
  OldStart :: go_int
  OldEnd :: go_int
  Old :: "Line list"
  NewStart :: go_int
  NewEnd :: go_int
  New :: "Line list"

section \<open>Strings and the regular expressions\<close>

text \<open>\<open>strings.HasPrefix(s, prefix)\<close>.\<close>

definition HasPrefix :: "string \<Rightarrow> string \<Rightarrow> bool" where
  "HasPrefix s p = (take (length p) s = p)"

text \<open>\<open>strings.Split(s, "\n")\<close>: one piece more than there are separators.\<close>

fun splitNL :: "string \<Rightarrow> string list" where
  "splitNL [] = [[]]"
| "splitNL (c # cs) =
     (if c = CHR 0x0A then [] # splitNL cs
      else (case splitNL cs of [] \<Rightarrow> [[c]] | l # ls \<Rightarrow> (c # l) # ls))"

text \<open>The character classes of Go's regexp syntax that the patterns use.\<close>

definition isDigit :: "char \<Rightarrow> bool" where
  "isDigit c = (48 \<le> (of_char c :: int) \<and> (of_char c :: int) \<le> 57)"

definition isUpper :: "char \<Rightarrow> bool" where
  "isUpper c = (65 \<le> (of_char c :: int) \<and> (of_char c :: int) \<le> 90)"

definition isLower :: "char \<Rightarrow> bool" where
  "isLower c = (97 \<le> (of_char c :: int) \<and> (of_char c :: int) \<le> 122)"

text \<open>\<open>[A-Za-z0-9]\<close>\<close>

definition isAlnum :: "char \<Rightarrow> bool" where
  "isAlnum c = (isUpper c \<or> isLower c \<or> isDigit c)"

text \<open>\<open>\w\<close> is \<open>[0-9A-Za-z_]\<close>.\<close>

definition isWord :: "char \<Rightarrow> bool" where
  "isWord c = (isAlnum c \<or> c = CHR ''_'')"

text \<open>\<open>\s\<close> is \<open>[\t\n\f\r ]\<close>.\<close>

definition isSpace :: "char \<Rightarrow> bool" where
  "isSpace c = ((of_char c :: int) \<in> {9, 10, 12, 13, 32})"

text \<open>
  A pattern is matched at the start of a string by consuming its pieces from left to
  right; \<open>lit\<close> consumes a literal and \<open>many1\<close> a greedy, non-empty run of a character
  class. In \<open>fileHeaderRx\<close>, \<open>hunkHeaderRx\<close> and \<open>functionRx\<close> every such run is followed by
  a literal character outside the class, so the greedy run is the only candidate and the
  matcher needs no backtracking. Either function returns what is left of the string.
\<close>

definition lit :: "string \<Rightarrow> string \<Rightarrow> string option" where
  "lit p s = (if HasPrefix s p then Some (drop (length p) s) else None)"

definition many1 :: "(char \<Rightarrow> bool) \<Rightarrow> string \<Rightarrow> (string \<times> string) option" where
  "many1 P s = (if takeWhile P s = [] then None else Some (takeWhile P s, dropWhile P s))"

text \<open>
  An unanchored search tries every start position from the left and keeps the first
  position where the pattern matches (leftmost match).
\<close>

fun leftmost :: "(string \<Rightarrow> 'a option) \<Rightarrow> string \<Rightarrow> 'a option" where
  "leftmost m [] = m []"
| "leftmost m (c # cs) = (case m (c # cs) of Some r \<Rightarrow> Some r | None \<Rightarrow> leftmost m cs)"

text \<open>
  \<open>fileHeaderRx = `diff \-\-git a\/([^\s]+) b\/(?:[^\s]+)`\<close>; the result is capture
  group 1.
\<close>

definition fileHeaderAt :: "string \<Rightarrow> string option" where
  "fileHeaderAt s =
     (case lit ''diff --git a/'' s of None \<Rightarrow> None | Some s1 \<Rightarrow>
      (case many1 (\<lambda>c. \<not> isSpace c) s1 of None \<Rightarrow> None | Some (f, s2) \<Rightarrow>
       (case lit '' b/'' s2 of None \<Rightarrow> None | Some s3 \<Rightarrow>
        (case many1 (\<lambda>c. \<not> isSpace c) s3 of None \<Rightarrow> None | Some _ \<Rightarrow> Some f))))"

definition fileHeaderRx :: "string \<Rightarrow> string option" where
  "fileHeaderRx line = leftmost fileHeaderAt line"

text \<open>
  \<open>hunkHeaderRx = `\@\@ \-([0-9]+),([0-9]+) \+([0-9]+),([0-9]+) \@\@`\<close>; the result
  is the four capture groups.
\<close>

definition hunkHeaderAt :: "string \<Rightarrow> (string \<times> string \<times> string \<times> string) option" where
  "hunkHeaderAt s =
     (case lit ''@@ -'' s of None \<Rightarrow> None | Some s1 \<Rightarrow>
      (case many1 isDigit s1 of None \<Rightarrow> None | Some (a, s2) \<Rightarrow>
       (case lit '','' s2 of None \<Rightarrow> None | Some s3 \<Rightarrow>
        (case many1 isDigit s3 of None \<Rightarrow> None | Some (b, s4) \<Rightarrow>
         (case lit '' +'' s4 of None \<Rightarrow> None | Some s5 \<Rightarrow>
          (case many1 isDigit s5 of None \<Rightarrow> None | Some (c, s6) \<Rightarrow>
           (case lit '','' s6 of None \<Rightarrow> None | Some s7 \<Rightarrow>
            (case many1 isDigit s7 of None \<Rightarrow> None | Some (d, s8) \<Rightarrow>
             (case lit '' @@'' s8 of None \<Rightarrow> None | Some _ \<Rightarrow> Some (a, b, c, d))))))))))"

definition hunkHeaderRx :: "string \<Rightarrow> (string \<times> string \<times> string \<times> string) option" where
  "hunkHeaderRx line = leftmost hunkHeaderAt line"

section \<open>strconv.Atoi\<close>

text \<open>
  \<open>strconv.Atoi\<close> accepts an optional sign and decimal digits. The caller drops the
  error, so what counts is the value returned with it: 0 after a syntax error, and the
  nearest bound of the 64-bit range after a range error.
\<close>

definition digitVal :: "char \<Rightarrow> int" where
  "digitVal c = of_char c - 48"

definition decVal :: "string \<Rightarrow> int" where
  "decVal s = foldl (\<lambda>n c. 10 * n + digitVal c) 0 s"

definition atoiDigits :: "bool \<Rightarrow> string \<Rightarrow> go_int" where
  "atoiDigits neg ds =
     (if ds = [] \<or> \<not> list_all isDigit ds then 0
      else if neg then (if decVal ds \<le> 2 ^ 63 then - of_int (decVal ds) else MinInt64)
      else (if decVal ds < 2 ^ 63 then of_int (decVal ds) else MaxInt64))"

fun Atoi :: "string \<Rightarrow> go_int" where
  "Atoi [] = 0"
| "Atoi (c # cs) =
     (if c = CHR ''-'' then atoiDigits True cs
      else if c = CHR ''+'' then atoiDigits False cs
      else atoiDigits False (c # cs))"

section \<open>The diff parser of Execute\<close>

text \<open>
  The loop over the lines of \<open>git show --unified=1\<close> keeps the current file name, the
  two line cursors and the hunks found so far. \<open>hunkDiffs\<close> is a slice of pointers in the
  source, and the loop only ever writes through the last one.
\<close>

record parser =
  filename :: string
  oldline :: go_int
  newline :: go_int
  hunkDiffs :: "HunkDiff list"

definition parser_init :: parser where
  "parser_init = \<lparr>filename = [], oldline = - 1, newline = - 1, hunkDiffs = []\<rparr>"

definition isMetadata :: "string \<Rightarrow> bool" where
  "isMetadata line =
     (HasPrefix line ''diff --git'' \<or> HasPrefix line ''index '' \<or>
      HasPrefix line ''---'' \<or> HasPrefix line ''+++'')"

definition appendNew :: "HunkDiff list \<Rightarrow> Line \<Rightarrow> HunkDiff list" where
  "appendNew hds l = hds[length hds - 1 := (last hds)\<lparr>New := New (last hds) @ [l]\<rparr>]"

definition appendOld :: "HunkDiff list \<Rightarrow> Line \<Rightarrow> HunkDiff list" where
  "appendOld hds l = hds[length hds - 1 := (last hds)\<lparr>Old := Old (last hds) @ [l]\<rparr>]"

definition parseLine :: "parser \<Rightarrow> string \<Rightarrow> parser" where
  "parseLine st line =
     (case fileHeaderRx line of
        Some f \<Rightarrow> st\<lparr>filename := f, oldline := - 1, newline := - 1\<rparr>
      | None \<Rightarrow>
        if filename st = [] then st
        else if isMetadata line then st
        else
          (case hunkHeaderRx line of
             Some (a, b, c, d) \<Rightarrow>
               (let oldstart = Atoi a;
                    oldoff = Atoi b;
                    oldend = oldstart + oldoff - 1;
                    newstart = Atoi c;
                    newoff = Atoi d;
                    newend = newstart + newoff - 1
                in st\<lparr>oldline := oldstart, newline := oldend,
                      hunkDiffs := hunkDiffs st @
                        [\<lparr>Filename = filename st, OldStart = oldstart, OldEnd = oldend,
                          Old = [], NewStart = newstart, NewEnd = newend, New = []\<rparr>]\<rparr>)
           | None \<Rightarrow>
               if hunkDiffs st = [] then st
               else if HasPrefix line ''+'' then
                 st\<lparr>hunkDiffs := appendNew (hunkDiffs st) \<lparr>Num = newline st, Text = line\<rparr>,
                    newline := newline st + 1\<rparr>
               else if HasPrefix line ''-'' then
                 st\<lparr>hunkDiffs := appendOld (hunkDiffs st) \<lparr>Num = oldline st, Text = line\<rparr>,
                    oldline := oldline st + 1\<rparr>
               else st\<lparr>oldline := oldline st + 1, newline := newline st + 1\<rparr>))"

definition parseLines :: "parser \<Rightarrow> string list \<Rightarrow> parser" where
  "parseLines st ls = foldl parseLine st ls"

definition parseDiff :: "string \<Rightarrow> HunkDiff list" where
  "parseDiff b = hunkDiffs (parseLines parser_init (splitNL b))"

section \<open>Tags and the overlap test of Execute\<close>

text \<open>
  Modelled from the spec: the struct \<open>ctags.Tag\<close>, whose declaration is not among the
  sources; the spec lists its fields as File, Name, Kind, Signature (strings) and Line
  (integer), and these are the fields Execute reads.
\<close>

record Tag =
  File :: string
  Name :: string
  Kind :: string
  Signature :: string
  Line :: go_int

text \<open>The three methods of \<open>tagSorter\<close>.\<close>

definition tagSorter_Less :: "Tag list \<Rightarrow> nat \<Rightarrow> nat \<Rightarrow> bool" where
  "tagSorter_Less tags i j = (Line (tags ! i) <s Line (tags ! j))"

definition tagSorter_Swap :: "Tag list \<Rightarrow> nat \<Rightarrow> nat \<Rightarrow> Tag list" where
  "tagSorter_Swap tags i j = tags[i := tags ! j, j := tags ! i]"

definition tagSorter_Len :: "Tag list \<Rightarrow> nat" where
  "tagSorter_Len tags = length tags"

text \<open>
  \<open>sort.Sort\<close> belongs to Go's library, which promises an ascending order by \<open>Less\<close> and
  no stability. On a slice of at most six elements every version of the library runs the
  insertion sort below, written with \<open>Less\<close> and \<open>Swap\<close> alone; on longer slices
  the library's algorithm depends on its version:
  \<^verbatim>\<open>for i := a + 1; i < b; i++ { for j := i; j > a && data.Less(j, j-1); j-- { data.Swap(j, j-1) } }\<close>
  The statements about the overlap test further down hold for any order of the tags.
\<close>

fun insertionInner :: "Tag list \<Rightarrow> nat \<Rightarrow> Tag list" where
  "insertionInner tags 0 = tags"
| "insertionInner tags (Suc j) =
     (if tagSorter_Less tags (Suc j) j
      then insertionInner (tagSorter_Swap tags (Suc j) j) j
      else tags)"

definition sort_Sort :: "Tag list \<Rightarrow> Tag list" where
  "sort_Sort tags = foldl insertionInner tags [1..<tagSorter_Len tags]"

text \<open>
  What one run of the inner loop does to the part of the slice before index \<open>j\<close>, seen
  from its end: the element at \<open>j\<close> moves left past every element with a greater
  \<open>Line\<close>. The argument and the result list that part backwards. This function is used
  in the proofs only.
\<close>

fun insr :: "Tag \<Rightarrow> Tag list \<Rightarrow> Tag list" where
  "insr x [] = [x]"
| "insr x (y # r) = (if Line x <s Line y then y # insr x r else x # y # r)"

text \<open>The list \<open>files\<close>: the file names of the hunks, without immediate repetitions.\<close>

definition filesOf :: "HunkDiff list \<Rightarrow> string list" where
  "filesOf hds =
     foldl (\<lambda>files h. if files = [] \<or> last files \<noteq> Filename h
                       then files @ [Filename h] else files) [] hds"

text \<open>
  \<open>hunkDiffM\<close>: each hunk is appended to the entry of its file name. Reading a key
  that is absent gives the nil slice.
\<close>

definition hunkDiffM_get :: "(string \<rightharpoonup> HunkDiff list) \<Rightarrow> string \<Rightarrow> HunkDiff list" where
  "hunkDiffM_get m f = (case m f of None \<Rightarrow> [] | Some hds \<Rightarrow> hds)"

definition hunkDiffM_of :: "HunkDiff list \<Rightarrow> (string \<rightharpoonup> HunkDiff list)" where
  "hunkDiffM_of hds =
     foldl (\<lambda>m h. m(Filename h \<mapsto> hunkDiffM_get m (Filename h) @ [h])) Map.empty hds"

text \<open>The implicit end line of the tag at index \<open>i\<close>.\<close>

definition endline :: "Tag list \<Rightarrow> nat \<Rightarrow> go_int" where
  "endline tags i = (if i + 1 < length tags then Line (tags ! (i + 1)) - 1 else MaxInt64)"

definition overlaps :: "HunkDiff \<Rightarrow> go_int \<Rightarrow> go_int \<Rightarrow> bool" where
  "overlaps h line e = (\<not> (e <s NewStart h \<or> NewEnd h <s line))"

text \<open>
  The inner loop over the hunks of the tag's file: the first overlapping hunk appends
  \<open>&tags[i]\<close> to \<open>changedTags\<close> and leaves the loop. The pointer is modelled by the
  index \<open>i\<close>.
\<close>

fun scanHunks :: "nat list \<Rightarrow> nat \<Rightarrow> go_int \<Rightarrow> go_int \<Rightarrow> HunkDiff list \<Rightarrow> nat list" where
  "scanHunks changed i line e [] = changed"
| "scanHunks changed i line e (h # hds) =
     (if overlaps h line e then changed @ [i] else scanHunks changed i line e hds)"

definition changedIndices :: "Tag list \<Rightarrow> HunkDiff list \<Rightarrow> nat list" where
  "changedIndices tags hds =
     foldl (\<lambda>changed i.
              scanHunks changed i (Line (tags ! i)) (endline tags i)
                (hunkDiffM_get (hunkDiffM_of hds) (File (tags ! i))))
       [] [0..<length tags]"

definition changedTags :: "Tag list \<Rightarrow> HunkDiff list \<Rightarrow> Tag list" where
  "changedTags tags hds = map (\<lambda>i. tags ! i) (changedIndices tags hds)"

section \<open>The reference patterns and the ignore set\<close>

text \<open>
  \<open>functionRx = `(?:([A-Za-z0-9]+)*\()`\<close> with \<open>FindAllStringSubmatch(text, -1)\<close>: the
  matches are found from left to right and do not overlap; a match at a position is the
  longest run of letters and digits there (it may be empty) and the parenthesis after it.
  The result lists \<open>match[1]\<close> of every match, the empty string where the group took
  part in no match.
\<close>

function functionRx_FindAll :: "string \<Rightarrow> string list" where
  "functionRx_FindAll [] = []"
| "functionRx_FindAll (c # cs) =
     (case dropWhile isAlnum (c # cs) of
        [] \<Rightarrow> functionRx_FindAll cs
      | p # r \<Rightarrow>
          if p = CHR ''('' then takeWhile isAlnum (c # cs) # functionRx_FindAll r
          else functionRx_FindAll cs)"
  by pat_completeness auto
termination
proof (relation "measure length")
  fix c :: char and cs p r
  assume "dropWhile isAlnum (c # cs) = p # r"
  then have "length (p # r) \<le> length (c # cs)"
    by (metis length_dropWhile_le)
  then show "(r, c # cs) \<in> measure length" by simp
qed auto

text \<open>
  The width in bytes of the first character of a non-empty string, as
  \<open>utf8.DecodeRuneInString\<close> reports it: a byte that starts no valid encoding counts
  alone.
\<close>

definition isCont :: "char \<Rightarrow> bool" where
  "isCont c = (128 \<le> (of_char c :: int) \<and> (of_char c :: int) \<le> 191)"

definition runeLen :: "string \<Rightarrow> nat" where
  "runeLen s =
     (case s of [] \<Rightarrow> 0 | c0 # r \<Rightarrow>
        (let b0 = (of_char c0 :: int);
             sz = (if 194 \<le> b0 \<and> b0 \<le> 223 then 2
                   else if 224 \<le> b0 \<and> b0 \<le> 239 then 3
                   else if 240 \<le> b0 \<and> b0 \<le> 244 then 4 else (1::nat));
             lo = (if b0 = 224 then 160 else if b0 = 240 then 144 else (128::int));
             hi = (if b0 = 237 then 159 else if b0 = 244 then 143 else (191::int))
         in if sz = 1 \<or> length s < sz then 1
            else if \<not> (lo \<le> of_char (s ! 1) \<and> of_char (s ! 1) \<le> hi) then 1
            else if \<not> list_all isCont (take (sz - 2) (drop 2 s)) then 1
            else sz))"

text \<open>
  \<open>typescriptRx = `<([A-Z]\w+).`\<close>: the run \<open>\w+\<close> is greedy, and the final \<open>.\<close> takes
  the character after it (any but a line feed); when there is none, the run gives its last
  character back to the \<open>.\<close>, which needs the run to keep one. The result is the whole
  match and capture group 1.
\<close>

definition typescriptAt :: "string \<Rightarrow> (string \<times> string) option" where
  "typescriptAt s =
     (case s of [] \<Rightarrow> None | lt # r1 \<Rightarrow>
        if lt \<noteq> CHR ''<'' then None else
        (case r1 of [] \<Rightarrow> None | u # r2 \<Rightarrow>
           if \<not> isUpper u then None else
           (let w = takeWhile isWord r2; rest = dropWhile isWord r2
            in if w = [] then None
               else if rest \<noteq> [] \<and> hd rest \<noteq> CHR 0x0A
                 then Some (lt # u # w @ take (runeLen rest) rest, u # w)
               else if 2 \<le> length w then Some (lt # u # w, u # butlast w)
               else None)))"

text \<open>\<open>typescriptRx.FindStringSubmatch\<close>: nil without a match, else both strings.\<close>

definition typescriptRx_FindStringSubmatch :: "string \<Rightarrow> string list" where
  "typescriptRx_FindStringSubmatch text =
     (case leftmost typescriptAt text of None \<Rightarrow> [] | Some (whole, g) \<Rightarrow> [whole, g])"

definition ignore_keys :: "string list" where
  "ignore_keys =
     [''append'', ''cap'', ''close'', ''copy'', ''delete'', ''image'', ''len'', ''make'',
      ''new'', ''print'', ''panic'', ''println'', ''real'', ''recover'', ''bool'', ''byte'',
      ''complex128'', ''complex64'', ''float32'', ''float64'', ''int'', ''int16'', ''int32'',
      ''int64'', ''int8'', ''rune'', ''string'', ''uint'', ''uint16'', ''uint32'', ''uint64'',
      ''uint8'', ''uintptr'', ''func'', ''TODO'']"

definition ignore :: "string \<Rightarrow> bool" where
  "ignore k = (k \<in> set ignore_keys)"

section \<open>Events and subscriptions\<close>

text \<open>
  Modelled from the spec: the structs \<open>Evt\<close>, \<open>EvtUpdate\<close>, \<open>SubUpdate\<close> and
  \<open>EvtsPostOpts\<close> and the two event types, whose declarations are not among the sources;
  the fields are those that Execute fills in.
\<close>

datatype EvtType = EvtTypeModified | EvtTypeReferenced

record Evt =
  ID :: string
  Title :: string
  Body :: string
  URL :: string
  Type :: EvtType
  Time :: go_int

record EvtUpdate =
  Hashes :: "string list"
  Users :: "string list"
  Event :: Evt

record SubUpdate =
  Src :: string
  Dsts :: "string list"

record EvtsPostOpts =
  Updates :: "EvtUpdate list"
  SubscriptionUpdates :: "SubUpdate list"

text \<open>What the first block of Execute learns from git about the commit.\<close>

record commit =
  remoteURL :: string
  commitURL :: string
  branch :: string
  authorName :: string
  authorFirstName :: string
  authorEmail :: string
  commitTimestamp :: go_int

definition modifiedUpdate :: "commit \<Rightarrow> Tag \<Rightarrow> EvtUpdate" where
  "modifiedUpdate c tag =
     \<lparr>Hashes = [Name tag, File tag, authorFirstName c, authorEmail c],
      Users = [],
      Event =
        \<lparr>ID = ''modified:'' @ Name tag @ '':'' @ File tag @ '':'' @ commitURL c,
         Title = authorFirstName c @ '' modified '' @ Kind tag @ '' '' @ Name tag @ Signature tag,
         Body = authorFirstName c @ '' modified <tt>'' @ Kind tag @ '' '' @ Name tag @
                Signature tag @ ''</tt> in <tt>'' @ File tag @ ''</tt> on branch <tt>'' @
                branch c @ ''</tt> in <tt>'' @ remoteURL c @ ''</tt>'',
         URL = commitURL c,
         Type = EvtTypeModified,
         Time = commitTimestamp c\<rparr>\<rparr>"

definition referencedUpdate :: "commit \<Rightarrow> string \<Rightarrow> string \<Rightarrow> string \<Rightarrow> EvtUpdate" where
  "referencedUpdate c file text m =
     \<lparr>Hashes = [m, file, authorFirstName c, authorEmail c],
      Users = [],
      Event =
        \<lparr>ID = ''referenced:'' @ m @ '':'' @ file @ '':'' @ commitURL c,
         Title = authorFirstName c @ '' referenced '' @ m,
         Body = authorFirstName c @ '' referenced <tt>'' @ m @ ''</tt> in <tt>'' @ file @
                ''</tt> on branch <tt>'' @ branch c @ ''</tt> in <tt>'' @ remoteURL c @
                ''</tt>'' @ [CHR 0x0A, CHR 0x0A] @ ''<pre>'' @ text @ ''</pre>'',
         URL = commitURL c,
         Type = EvtTypeReferenced,
         Time = commitTimestamp c\<rparr>\<rparr>"

definition reactUpdate :: "commit \<Rightarrow> string \<Rightarrow> string \<Rightarrow> string \<Rightarrow> EvtUpdate" where
  "reactUpdate c file text m =
     \<lparr>Hashes = [m, file],
      Users = [],
      Event =
        \<lparr>ID = ''referenced(react):'' @ m @ '':'' @ file @ '':'' @ commitURL c,
         Title = authorFirstName c @ '' used React component '' @ m,
         Body = authorFirstName c @ '' used React component <tt>'' @ m @ ''</tt> in <tt>'' @
                file @ ''</tt> on branch <tt>'' @ branch c @ ''</tt> in <tt>'' @ remoteURL c @
                ''</tt>'' @ [CHR 0x0A, CHR 0x0A] @ ''<pre>'' @ text @ ''</pre>'',
         URL = commitURL c,
         Type = EvtTypeReferenced,
         Time = commitTimestamp c\<rparr>\<rparr>"

text \<open>
  Every event is appended to \<open>events\<close> together with two entries of \<open>subscriptions\<close>,
  from the author's first name and from the full name to the subject.
\<close>

definition emit :: "commit \<Rightarrow> EvtsPostOpts \<Rightarrow> EvtUpdate \<Rightarrow> string \<Rightarrow> EvtsPostOpts" where
  "emit c out u subject =
     \<lparr>Updates = Updates out @ [u],
      SubscriptionUpdates = SubscriptionUpdates out @
        [\<lparr>Src = authorFirstName c, Dsts = [subject]\<rparr>,
         \<lparr>Src = authorName c, Dsts = [subject]\<rparr>]\<rparr>"

definition emitModified :: "commit \<Rightarrow> EvtsPostOpts \<Rightarrow> Tag \<Rightarrow> EvtsPostOpts" where
  "emitModified c out tag = emit c out (modifiedUpdate c tag) (Name tag)"

text \<open>The loop over the matches of \<open>functionRx\<close> in one added line.\<close>

definition emitCalls :: "commit \<Rightarrow> string \<Rightarrow> string \<Rightarrow> EvtsPostOpts \<Rightarrow> EvtsPostOpts" where
  "emitCalls c file text out =
     foldl (\<lambda>acc m. if 0 < length m \<and> \<not> ignore m
                     then emit c acc (referencedUpdate c file text m) m else acc)
       out (functionRx_FindAll text)"

text \<open>The loop over the strings that \<open>typescriptRx.FindStringSubmatch\<close> returns.\<close>

definition emitReact :: "commit \<Rightarrow> string \<Rightarrow> string \<Rightarrow> EvtsPostOpts \<Rightarrow> EvtsPostOpts" where
  "emitReact c file text out =
     foldl (\<lambda>acc m. if 0 < length m \<and> \<not> ignore m
                     then emit c acc (reactUpdate c file text m) m else acc)
       out (typescriptRx_FindStringSubmatch text)"

definition emitLine :: "commit \<Rightarrow> string \<Rightarrow> EvtsPostOpts \<Rightarrow> Line \<Rightarrow> EvtsPostOpts" where
  "emitLine c file out newLine = emitReact c file (Text newLine) (emitCalls c file (Text newLine) out)"

definition emitHunk :: "commit \<Rightarrow> EvtsPostOpts \<Rightarrow> HunkDiff \<Rightarrow> EvtsPostOpts" where
  "emitHunk c out h = foldl (emitLine c (Filename h)) out (New h)"

definition emitReferences :: "commit \<Rightarrow> EvtsPostOpts \<Rightarrow> HunkDiff list \<Rightarrow> EvtsPostOpts" where
  "emitReferences c out hds = foldl (emitHunk c) out hds"

text \<open>
  The assembly of events from the hunks and the sorted tags, and Execute from the diff
  text on. \<open>ctags.Parse2\<close> runs an external program on the files of the diff; it is a
  parameter here, an error message or the tags. Its error ends Execute.
\<close>

definition assemble :: "commit \<Rightarrow> Tag list \<Rightarrow> HunkDiff list \<Rightarrow> EvtsPostOpts" where
  "assemble c tags hds =
     emitReferences c
       (foldl (emitModified c) \<lparr>Updates = [], SubscriptionUpdates = []\<rparr> (changedTags tags hds))
       hds"

definition Execute :: "commit \<Rightarrow> string \<Rightarrow> (string list \<Rightarrow> string + Tag list) \<Rightarrow> string + EvtsPostOpts" where
  "Execute c b Parse2 =
     (let hds = parseDiff b
      in case Parse2 (filesOf hds) of
           Inl err \<Rightarrow> Inl err
         | Inr tags \<Rightarrow> Inr (assemble c (sort_Sort tags) hds))"

text \<open>
  Three abbreviations for the statements below: the matches of a line that pass the test
  \<open>len(match) > 0 && !ignore[match]\<close> of either loop, and the pair of subscription
  entries that goes with an event.
\<close>

definition callTokens :: "string \<Rightarrow> string list" where
  "callTokens text = filter (\<lambda>m. 0 < length m \<and> \<not> ignore m) (functionRx_FindAll text)"

definition reactTokens :: "string \<Rightarrow> string list" where
  "reactTokens text =
     filter (\<lambda>m. 0 < length m \<and> \<not> ignore m) (typescriptRx_FindStringSubmatch text)"

definition subsOf :: "commit \<Rightarrow> string \<Rightarrow> SubUpdate list" where
  "subsOf c subject =
     [\<lparr>Src = authorFirstName c, Dsts = [subject]\<rparr>, \<lparr>Src = authorName c, Dsts = [subject]\<rparr>]"

section \<open>The parser at a hunk header\<close>






lemma not_isMetadata_canonical:
  "\<not> isMetadata (''@@ -'' @ s)"
  by (simp add: isMetadata_def HasPrefix_def)



lemma Atoi_out_of_range:
  assumes "a \<noteq> []" and "list_all isDigit a" and "2 ^ 63 \<le> decVal a"
  shows "Atoi a = MaxInt64"
proof (cases a)
  case Nil
  with assms show ?thesis by simp
next
  case (Cons x xs)
  with assms(2) have "isDigit x" by simp
  then have "x \<noteq> CHR ''-''" "x \<noteq> CHR ''+''" by (auto simp: isDigit_def)
  with Cons assms show ?thesis by (simp add: atoiDigits_def)
qed








lemma leftmost_split: "leftmost m s = Some r \<Longrightarrow> \<exists>pre t. s = pre @ t \<and> m t = Some r"
proof (induction s)
  case Nil
  then show ?case by simp
next
  case (Cons x xs)
  show ?case
  proof (cases "m (x # xs)")
    case None
    with Cons obtain pre t where "xs = pre @ t" "m t = Some r" by auto
    then have "x # xs = (x # pre) @ t \<and> m t = Some r" by simp
    then show ?thesis by blast
  next
    case (Some r')
    with Cons.prems have "x # xs = [] @ (x # xs) \<and> m (x # xs) = Some r" by simp
    then show ?thesis by blast
  qed
qed





lemmas parse_eval =
  parseLine_def fileHeaderRx_def fileHeaderAt_def hunkHeaderRx_def hunkHeaderAt_def
  lit_def many1_def HasPrefix_def isMetadata_def isDigit_def isSpace_def atoiDigits_def
  decVal_def digitVal_def appendNew_def appendOld_def Let_def




section \<open>The parser between a file header and the next hunk header\<close>

lemma fileHeaderAt_nonempty: "fileHeaderAt t = Some f \<Longrightarrow> f \<noteq> []"
  by (auto simp: fileHeaderAt_def many1_def split: option.splits if_splits)

lemma fileHeaderRx_nonempty: "fileHeaderRx l = Some f \<Longrightarrow> f \<noteq> []"
  unfolding fileHeaderRx_def by (blast dest: leftmost_split fileHeaderAt_nonempty)

lemma parseLine_file_header:
  "fileHeaderRx l = Some f \<Longrightarrow> parseLine st l = st\<lparr>filename := f, oldline := - 1, newline := - 1\<rparr>"
  by (simp add: parseLine_def)

lemma parseLine_metadata:
  "fileHeaderRx l = None \<Longrightarrow> isMetadata l \<Longrightarrow> parseLine st l = st"
  by (simp add: parseLine_def)

lemma parseLines_Cons: "parseLines st (l # ls) = parseLines (parseLine st l) ls"
  by (simp add: parseLines_def)

lemma parseLines_append: "parseLines st (xs @ ys) = parseLines (parseLines st xs) ys"
  by (simp add: parseLines_def)

lemma parseLines_Nil: "parseLines st [] = st"
  by (simp add: parseLines_def)

lemma parseLine_added:
  assumes "fileHeaderRx l = None" "filename st \<noteq> []" "\<not> isMetadata l" "hunkHeaderRx l = None"
      and "hunkDiffs st \<noteq> []" "HasPrefix l ''+''"
  shows "parseLine st l =
           st\<lparr>hunkDiffs := appendNew (hunkDiffs st) \<lparr>Num = newline st, Text = l\<rparr>,
              newline := newline st + 1\<rparr>"
  using assms by (simp add: parseLine_def)

lemma parseLine_removed:
  assumes "fileHeaderRx l = None" "filename st \<noteq> []" "\<not> isMetadata l" "hunkHeaderRx l = None"
      and "hunkDiffs st \<noteq> []" "\<not> HasPrefix l ''+''" "HasPrefix l ''-''"
  shows "parseLine st l =
           st\<lparr>hunkDiffs := appendOld (hunkDiffs st) \<lparr>Num = oldline st, Text = l\<rparr>,
              oldline := oldline st + 1\<rparr>"
  using assms by (simp add: parseLine_def)

lemma last_appendNew:
  "hds \<noteq> [] \<Longrightarrow> last (appendNew hds l) = (last hds)\<lparr>New := New (last hds) @ [l]\<rparr>"
  by (simp add: appendNew_def last_list_update)

lemma butlast_appendNew: "butlast (appendNew hds l) = butlast hds"
  by (simp add: appendNew_def butlast_list_update)

lemma last_appendOld:
  "hds \<noteq> [] \<Longrightarrow> last (appendOld hds l) = (last hds)\<lparr>Old := Old (last hds) @ [l]\<rparr>"
  by (simp add: appendOld_def last_list_update)

lemma butlast_appendOld: "butlast (appendOld hds l) = butlast hds"
  by (simp add: appendOld_def butlast_list_update)

lemma length_appendNew: "length (appendNew hds l) = length hds"
  by (simp add: appendNew_def)

lemma length_appendOld: "length (appendOld hds l) = length hds"
  by (simp add: appendOld_def)

lemma parseLine_between:
  assumes "fileHeaderRx l = None" and "hunkHeaderRx l = None"
      and "filename st \<noteq> []" and "hunkDiffs st \<noteq> []"
  shows "filename (parseLine st l) = filename st
       \<and> length (hunkDiffs (parseLine st l)) = length (hunkDiffs st)
       \<and> Filename (last (hunkDiffs (parseLine st l))) = Filename (last (hunkDiffs st))
       \<and> newline (parseLine st l) =
           newline st + (if \<not> isMetadata l \<and> \<not> HasPrefix l ''-'' then 1 else 0)
       \<and> oldline (parseLine st l) =
           oldline st + (if \<not> isMetadata l \<and> \<not> HasPrefix l ''+'' then 1 else 0)"
proof (cases "isMetadata l")
  case True
  then show ?thesis by (simp add: parseLine_metadata [OF assms(1)])
next
  case False
  show ?thesis
  proof (cases "HasPrefix l ''+''")
    case True
    then have "\<not> HasPrefix l ''-''" by (cases l) (simp_all add: HasPrefix_def)
    with True False assms(4) show ?thesis
      by (simp add: parseLine_added [OF assms(1,3) False assms(2,4) True]
          last_appendNew length_appendNew)
  next
    case plus: False
    show ?thesis
    proof (cases "HasPrefix l ''-''")
      case True
      with plus False assms(4) show ?thesis
        by (simp add: parseLine_removed [OF assms(1,3) False assms(2,4) plus True]
            last_appendOld length_appendOld)
    next
      case minus: False
      have "parseLine st l = st\<lparr>oldline := oldline st + 1, newline := newline st + 1\<rparr>"
        using assms False plus minus by (simp add: parseLine_def)
      with False plus minus show ?thesis by simp
    qed
  qed
qed

lemma parseLines_between:
  assumes "list_all (\<lambda>l. fileHeaderRx l = None \<and> hunkHeaderRx l = None) ms"
      and "filename st \<noteq> []" and "hunkDiffs st \<noteq> []"
  shows "filename (parseLines st ms) = filename st
       \<and> length (hunkDiffs (parseLines st ms)) = length (hunkDiffs st)
       \<and> Filename (last (hunkDiffs (parseLines st ms))) = Filename (last (hunkDiffs st))
       \<and> newline (parseLines st ms) =
           newline st + of_nat (length (filter (\<lambda>l. \<not> isMetadata l \<and> \<not> HasPrefix l ''-'') ms))
       \<and> oldline (parseLines st ms) =
           oldline st + of_nat (length (filter (\<lambda>l. \<not> isMetadata l \<and> \<not> HasPrefix l ''+'') ms))"
  using assms
proof (induction ms arbitrary: st)
  case Nil
  then show ?case by (simp add: parseLines_Nil)
next
  case (Cons l ms)
  from Cons.prems have l: "fileHeaderRx l = None" "hunkHeaderRx l = None"
    and ms: "list_all (\<lambda>l. fileHeaderRx l = None \<and> hunkHeaderRx l = None) ms" by simp_all
  note one = parseLine_between [OF l Cons.prems(2,3)]
  from one Cons.prems(2) have f: "filename (parseLine st l) \<noteq> []" by simp
  from one Cons.prems(3) have "length (hunkDiffs (parseLine st l)) \<noteq> 0" by simp
  then have h: "hunkDiffs (parseLine st l) \<noteq> []" by (simp only: length_0_conv not_False_eq_True)
  from Cons.IH [OF ms f h] one show ?case
    by (simp add: parseLines_Cons)
qed

text \<open>
  C10 (amended). The guard "no hunk opened yet" looks at the whole list of hunks. Once a
  hunk of an earlier file is open, a line after a later file header and before the next
  hunk header that begins with \<open>+\<close> (or \<open>-\<close>), is not a \<open>+++\<close> (or \<open>---\<close>) metadata
  line and matches neither header pattern, is appended to the added (removed) lines of the
  last hunk, which belongs to the earlier file. Its Num is -1 + k, where k counts the lines
  between the file header and this line that are not skipped as metadata and do not begin
  with \<open>-\<close> (with \<open>+\<close>, for a removed line); so Num is -1 when only metadata lines lie in
  between.
\<close>

theorem stray_line_joins_previous_hunk:
  assumes "hunkDiffs st \<noteq> []"
      and "fileHeaderRx hdr = Some f"
      and "list_all (\<lambda>l. fileHeaderRx l = None \<and> hunkHeaderRx l = None) ms"
      and "fileHeaderRx line = None" "hunkHeaderRx line = None" "\<not> isMetadata line"
  shows "filename (parseLines st (hdr # ms @ [line])) = f
       \<and> length (hunkDiffs (parseLines st (hdr # ms @ [line]))) = length (hunkDiffs st)
       \<and> Filename (last (hunkDiffs (parseLines st (hdr # ms @ [line])))) =
           Filename (last (hunkDiffs st))
       \<and> (HasPrefix line ''+'' \<longrightarrow>
            New (last (hunkDiffs (parseLines st (hdr # ms @ [line])))) =
              New (last (hunkDiffs (parseLines st (hdr # ms)))) @
              [\<lparr>Num = - 1 + of_nat (length (filter
                        (\<lambda>l. \<not> isMetadata l \<and> \<not> HasPrefix l ''-'') ms)),
                Text = line\<rparr>])
       \<and> (HasPrefix line ''-'' \<longrightarrow>
            Old (last (hunkDiffs (parseLines st (hdr # ms @ [line])))) =
              Old (last (hunkDiffs (parseLines st (hdr # ms)))) @
              [\<lparr>Num = - 1 + of_nat (length (filter
                        (\<lambda>l. \<not> isMetadata l \<and> \<not> HasPrefix l ''+'') ms)),
                Text = line\<rparr>])"
proof -
  let ?st1 = "st\<lparr>filename := f, oldline := - 1, newline := - 1\<rparr>"
  let ?P = "parseLines st (hdr # ms)"
  have f: "f \<noteq> []" using assms(2) by (rule fileHeaderRx_nonempty)
  have P: "?P = parseLines ?st1 ms"
    by (simp add: parseLines_Cons parseLine_file_header [OF assms(2)])
  have st1: "filename ?st1 \<noteq> []" "hunkDiffs ?st1 \<noteq> []" using f assms(1) by simp_all
  note mid = parseLines_between [OF assms(3) st1]
  have Pf: "filename ?P = f" and Plen: "length (hunkDiffs ?P) = length (hunkDiffs st)"
    and Pfile: "Filename (last (hunkDiffs ?P)) = Filename (last (hunkDiffs st))"
    and Pnew: "newline ?P = - 1 + of_nat (length (filter
                  (\<lambda>l. \<not> isMetadata l \<and> \<not> HasPrefix l ''-'') ms))"
    and Pold: "oldline ?P = - 1 + of_nat (length (filter
                  (\<lambda>l. \<not> isMetadata l \<and> \<not> HasPrefix l ''+'') ms))"
    using mid by (simp_all add: P)
  have Pf': "filename ?P \<noteq> []" using Pf f by simp
  have "length (hunkDiffs ?P) \<noteq> 0" using Plen assms(1) by simp
  then have Ph: "hunkDiffs ?P \<noteq> []" by (simp only: length_0_conv not_False_eq_True)
  have R: "parseLines st (hdr # ms @ [line]) = parseLine ?P line"
    using parseLines_append [of st "hdr # ms" "[line]"]
    by (simp add: parseLines_Cons parseLines_Nil)
  note last = parseLine_between [OF assms(4,5) Pf' Ph]
  have plus: "HasPrefix line ''+'' \<Longrightarrow>
      New (last (hunkDiffs (parseLine ?P line))) =
        New (last (hunkDiffs ?P)) @ [\<lparr>Num = newline ?P, Text = line\<rparr>]"
    using Ph by (simp add: parseLine_added [OF assms(4) Pf' assms(6,5) Ph] last_appendNew)
  have excl: "HasPrefix line ''-'' \<Longrightarrow> \<not> HasPrefix line ''+''"
    by (cases line) (simp_all add: HasPrefix_def)
  have minus: "HasPrefix line ''-'' \<Longrightarrow>
      Old (last (hunkDiffs (parseLine ?P line))) =
        Old (last (hunkDiffs ?P)) @ [\<lparr>Num = oldline ?P, Text = line\<rparr>]"
    using Ph excl by (simp add: parseLine_removed [OF assms(4) Pf' assms(6,5) Ph] last_appendOld)
  show ?thesis
    unfolding R using last plus minus by (simp add: Pf Plen Pfile Pnew Pold)
qed

theorem stray_line_joins_previous_hunk_witness:
  "Filename (last (hunkDiffs (parseLines
      \<lparr>filename = ''a.go'', oldline = 11, newline = 11,
       hunkDiffs = [\<lparr>Filename = ''a.go'', OldStart = 10, OldEnd = 10, Old = [],
                     NewStart = 10, NewEnd = 12, New = []\<rparr>]\<rparr>
      [''diff --git a/b.go b/b.go'', ''index 1..2'', ''--- a/b.go'', ''+++ b/b.go'', ''+x'']))) =
    ''a.go''
   \<and> New (last (hunkDiffs (parseLines
      \<lparr>filename = ''a.go'', oldline = 11, newline = 11,
       hunkDiffs = [\<lparr>Filename = ''a.go'', OldStart = 10, OldEnd = 10, Old = [],
                     NewStart = 10, NewEnd = 12, New = []\<rparr>]\<rparr>
      [''diff --git a/b.go b/b.go'', ''index 1..2'', ''--- a/b.go'', ''+++ b/b.go'', ''+x'']))) =
    [\<lparr>Num = - 1, Text = ''+x''\<rparr>]
   \<and> Old (last (hunkDiffs (parseLines
      \<lparr>filename = ''a.go'', oldline = 11, newline = 11,
       hunkDiffs = [\<lparr>Filename = ''a.go'', OldStart = 10, OldEnd = 10, Old = [],
                     NewStart = 10, NewEnd = 12, New = []\<rparr>]\<rparr>
      [''diff --git a/b.go b/b.go'', ''deleted file mode 100644'', ''-y'']))) =
    [\<lparr>Num = 0, Text = ''-y''\<rparr>]"
proof -
  let ?st = "\<lparr>filename = ''a.go'', oldline = 11, newline = 11,
       hunkDiffs = [\<lparr>Filename = ''a.go'', OldStart = 10, OldEnd = 10, Old = [],
                     NewStart = 10, NewEnd = 12, New = []\<rparr>]\<rparr>"
  have hdr: "fileHeaderRx ''diff --git a/b.go b/b.go'' = Some ''b.go''"
    by (simp add: fileHeaderRx_def fileHeaderAt_def lit_def many1_def HasPrefix_def isSpace_def)
  have ms: "list_all (\<lambda>l. fileHeaderRx l = None \<and> hunkHeaderRx l = None)
              [''index 1..2'', ''--- a/b.go'', ''+++ b/b.go'']"
    by (simp add: fileHeaderRx_def fileHeaderAt_def hunkHeaderRx_def hunkHeaderAt_def
        lit_def HasPrefix_def)
  have ms': "list_all (\<lambda>l. fileHeaderRx l = None \<and> hunkHeaderRx l = None)
              [''deleted file mode 100644'']"
    by (simp add: fileHeaderRx_def fileHeaderAt_def hunkHeaderRx_def hunkHeaderAt_def
        lit_def HasPrefix_def)
  have x: "fileHeaderRx ''+x'' = None" "hunkHeaderRx ''+x'' = None" "\<not> isMetadata ''+x''"
    by (simp_all add: isMetadata_def fileHeaderRx_def fileHeaderAt_def hunkHeaderRx_def
        hunkHeaderAt_def lit_def HasPrefix_def)
  have y: "fileHeaderRx ''-y'' = None" "hunkHeaderRx ''-y'' = None" "\<not> isMetadata ''-y''"
    by (simp_all add: isMetadata_def fileHeaderRx_def fileHeaderAt_def hunkHeaderRx_def
        hunkHeaderAt_def lit_def HasPrefix_def)
  have st: "hunkDiffs ?st \<noteq> []" by simp
  have before: "New (last (hunkDiffs (parseLines ?st
        [''diff --git a/b.go b/b.go'', ''index 1..2'', ''--- a/b.go'', ''+++ b/b.go'']))) = []"
      "Old (last (hunkDiffs (parseLines ?st
        [''diff --git a/b.go b/b.go'', ''deleted file mode 100644'']))) = []"
    by (simp_all add: parseLines_def parse_eval)
  show ?thesis
    using stray_line_joins_previous_hunk [OF st hdr ms x]
          stray_line_joins_previous_hunk [OF st hdr ms' y]
    by (simp add: before isMetadata_def HasPrefix_def)
qed

theorem stray_line_counterexample:
  "map New (hunkDiffs (parseLines parser_init
      [''diff --git a/a.go b/a.go'', ''@@ -10,1 +10,3 @@'',
       ''diff --git a/b.go b/b.go'', ''+++ b/b.go''])) = [[]]
   \<and> map New (hunkDiffs (parseLines parser_init
      [''diff --git a/a.go b/a.go'', ''@@ -10,1 +10,3 @@'',
       ''diff --git a/b.go b/b.go'', ''new file mode 100644'', ''+x''])) =
     [[\<lparr>Num = 0, Text = ''+x''\<rparr>]]"
  by (simp add: parseLines_def parser_init_def parse_eval)

section \<open>The overlap test\<close>

lemma hunkDiffM_fold_get:
  "hunkDiffM_get (foldl (\<lambda>m h. m(Filename h \<mapsto> hunkDiffM_get m (Filename h) @ [h])) m hds) f
   = hunkDiffM_get m f @ filter (\<lambda>h. Filename h = f) hds"
  by (induction hds arbitrary: m) (simp_all add: hunkDiffM_get_def)

lemma hunkDiffM_get_of:
  "hunkDiffM_get (hunkDiffM_of hds) f = filter (\<lambda>h. Filename h = f) hds"
  by (simp add: hunkDiffM_of_def hunkDiffM_fold_get) (simp add: hunkDiffM_get_def)

lemma scanHunks_eq:
  "scanHunks changed i line e hds =
     (if \<exists>h\<in>set hds. overlaps h line e then changed @ [i] else changed)"
  by (induction hds) simp_all

lemma foldl_collect:
  "foldl (\<lambda>acc i. if P i then acc @ [i] else acc) acc xs = acc @ filter P xs"
  by (induction xs arbitrary: acc) simp_all

lemma changedIndices_filter:
  "changedIndices tags hds =
     filter (\<lambda>i. \<exists>h\<in>set hds. Filename h = File (tags ! i) \<and>
                   overlaps h (Line (tags ! i)) (endline tags i)) [0..<length tags]"
proof -
  have step: "scanHunks changed i (Line (tags ! i)) (endline tags i)
                (hunkDiffM_get (hunkDiffM_of hds) (File (tags ! i))) =
              (if \<exists>h\<in>set hds. Filename h = File (tags ! i) \<and>
                    overlaps h (Line (tags ! i)) (endline tags i)
               then changed @ [i] else changed)" for changed i
    by (auto simp: scanHunks_eq hunkDiffM_get_of)
  show ?thesis
    unfolding changedIndices_def step foldl_collect by simp
qed

text \<open>
  C1. The tag at index i of the tag list is reported as changed exactly when some hunk
  with the tag's file name satisfies NOT (NewStart > endline or NewEnd < Line), with the
  tag's implicit end line. No index is reported twice, the indices come in ascending
  order, and a tag whose file has no hunk is not reported.
\<close>

theorem changed_iff_overlap:
  "(i \<in> set (changedIndices tags hds) \<longleftrightarrow>
      i < length tags \<and>
      (\<exists>h\<in>set hds. Filename h = File (tags ! i) \<and>
         \<not> (endline tags i <s NewStart h \<or> NewEnd h <s Line (tags ! i))))
   \<and> distinct (changedIndices tags hds)
   \<and> sorted (changedIndices tags hds)
   \<and> ((\<forall>h\<in>set hds. Filename h \<noteq> File (tags ! i)) \<longrightarrow> i \<notin> set (changedIndices tags hds))"
  unfolding changedIndices_filter overlaps_def by (auto simp: sorted_wrt_filter)

theorem changed_iff_overlap_witness:
  "0 \<in> set (changedIndices
      [\<lparr>File = ''a.go'', Name = ''Foo'', Kind = ''func'', Signature = ''()'', Line = 9\<rparr>,
       \<lparr>File = ''a.go'', Name = ''Bar'', Kind = ''func'', Signature = ''()'', Line = 15\<rparr>,
       \<lparr>File = ''c.go'', Name = ''Qux'', Kind = ''func'', Signature = ''()'', Line = 20\<rparr>]
      [\<lparr>Filename = ''a.go'', OldStart = 10, OldEnd = 10, Old = [],
        NewStart = 10, NewEnd = 12, New = []\<rparr>])
   \<and> 1 \<notin> set (changedIndices
      [\<lparr>File = ''a.go'', Name = ''Foo'', Kind = ''func'', Signature = ''()'', Line = 9\<rparr>,
       \<lparr>File = ''a.go'', Name = ''Bar'', Kind = ''func'', Signature = ''()'', Line = 15\<rparr>,
       \<lparr>File = ''c.go'', Name = ''Qux'', Kind = ''func'', Signature = ''()'', Line = 20\<rparr>]
      [\<lparr>Filename = ''a.go'', OldStart = 10, OldEnd = 10, Old = [],
        NewStart = 10, NewEnd = 12, New = []\<rparr>])
   \<and> 2 \<notin> set (changedIndices
      [\<lparr>File = ''a.go'', Name = ''Foo'', Kind = ''func'', Signature = ''()'', Line = 9\<rparr>,
       \<lparr>File = ''a.go'', Name = ''Bar'', Kind = ''func'', Signature = ''()'', Line = 15\<rparr>,
       \<lparr>File = ''c.go'', Name = ''Qux'', Kind = ''func'', Signature = ''()'', Line = 20\<rparr>]
      [\<lparr>Filename = ''a.go'', OldStart = 10, OldEnd = 10, Old = [],
        NewStart = 10, NewEnd = 12, New = []\<rparr>])"
proof -
  let ?tags = "[\<lparr>File = ''a.go'', Name = ''Foo'', Kind = ''func'', Signature = ''()'', Line = 9\<rparr>,
       \<lparr>File = ''a.go'', Name = ''Bar'', Kind = ''func'', Signature = ''()'', Line = 15\<rparr>,
       \<lparr>File = ''c.go'', Name = ''Qux'', Kind = ''func'', Signature = ''()'', Line = 20\<rparr>]"
  let ?hds = "[\<lparr>Filename = ''a.go'', OldStart = 10, OldEnd = 10, Old = [],
        NewStart = 10, NewEnd = 12, New = []\<rparr>]"
  have "0 \<in> set (changedIndices ?tags ?hds)"
    using changed_iff_overlap [of 0 ?tags ?hds] by (simp add: endline_def)
  moreover have "1 \<notin> set (changedIndices ?tags ?hds)"
    using changed_iff_overlap [of 1 ?tags ?hds] by (simp add: endline_def)
  moreover have "2 \<notin> set (changedIndices ?tags ?hds)"
    using changed_iff_overlap [of 2 ?tags ?hds] by simp
  ultimately show ?thesis by simp
qed

section \<open>The sort and the implicit end lines\<close>

lemma insertionInner_insr:
  "insertionInner (rev r @ x # ys) (length r) = rev (insr x r) @ ys"
proof (induction r arbitrary: ys)
  case Nil
  show ?case by simp
next
  case (Cons y r)
  let ?tags = "rev r @ y # x # ys"
  have at: "?tags ! length r = y" "?tags ! Suc (length r) = x"
    by (simp_all add: nth_append)
  have swap: "tagSorter_Swap ?tags (Suc (length r)) (length r) = rev r @ x # y # ys"
    by (simp add: tagSorter_Swap_def at list_update_append)
  have less: "tagSorter_Less ?tags (Suc (length r)) (length r) = (Line x <s Line y)"
    by (simp add: tagSorter_Less_def at)
  show ?case
    using Cons.IH [of "y # ys"] by (simp add: less swap)
qed

lemma length_insr: "length (insr x r) = Suc (length r)"
  by (induction r) simp_all

lemma mset_insr: "mset (insr x r) = add_mset x (mset r)"
  by (induction r) simp_all


lemma foldl_insertionInner:
  "foldl insertionInner (rev r @ ys) [length r..<length r + length ys]
   = rev (foldl (\<lambda>r x. insr x r) r ys)"
proof (induction ys arbitrary: r)
  case Nil
  show ?case by simp
next
  case (Cons x ys)
  have "[length r..<length r + length (x # ys)]
        = length r # [length (insr x r)..<length (insr x r) + length ys]"
    using upt_conv_Cons [of "length r" "length r + Suc (length ys)"]
    by (simp add: length_insr del: upt_Suc)
  then show ?case
    using Cons.IH [of "insr x r"] by (simp add: insertionInner_insr)
qed

lemma sort_Sort_insr: "sort_Sort tags = rev (foldl (\<lambda>r x. insr x r) [] tags)"
proof (cases tags)
  case Nil
  then show ?thesis by (simp add: sort_Sort_def tagSorter_Len_def)
next
  case (Cons x ys)
  have "foldl insertionInner (rev [x] @ ys) [length [x]..<length [x] + length ys]
        = rev (foldl (\<lambda>r x. insr x r) [x] ys)"
    by (rule foldl_insertionInner)
  then show ?thesis using Cons by (simp add: sort_Sort_def tagSorter_Len_def)
qed

lemma mset_foldl_insr: "mset (foldl (\<lambda>r x. insr x r) r xs) = mset r + mset xs"
  by (induction xs arbitrary: r) (simp_all add: mset_insr)

lemma mset_sort_Sort: "mset (sort_Sort tags) = mset tags"
  by (simp add: sort_Sort_insr mset_foldl_insr)

lemma length_sort_Sort: "length (sort_Sort tags) = length tags"
  by (metis mset_sort_Sort size_mset)




lemma sle_MaxInt64: "x \<le>s MaxInt64"
proof -
  have "sint x < 2 ^ 63" using sint_lt [of x] by simp
  then show ?thesis by (simp add: word_sle_eq MaxInt64_def)
qed

text \<open>
  C2. In the one sequence of all tags that the loop walks after the sort, the implicit
  end line of the tag at index i is the Line of the tag at index i + 1 less one, whatever
  file that next tag belongs to, and the greatest integer for the last tag.
\<close>

theorem implicit_end_line:
  "(i + 1 < length tags \<longrightarrow> endline tags i = Line (tags ! (i + 1)) - 1)
   \<and> (i + 1 = length tags \<longrightarrow> endline tags i = MaxInt64)
   \<and> sint MaxInt64 = 2 ^ 63 - 1
   \<and> (\<forall>x. x \<le>s MaxInt64)"
  by (simp add: endline_def sle_MaxInt64) (simp add: MaxInt64_def)

theorem implicit_end_line_witness:
  "endline (sort_Sort
      [\<lparr>File = ''b.go'', Name = ''Bar'', Kind = ''func'', Signature = ''()'', Line = 15\<rparr>,
       \<lparr>File = ''a.go'', Name = ''Foo'', Kind = ''func'', Signature = ''()'', Line = 9\<rparr>]) 0 = 14
   \<and> endline (sort_Sort
      [\<lparr>File = ''b.go'', Name = ''Bar'', Kind = ''func'', Signature = ''()'', Line = 15\<rparr>,
       \<lparr>File = ''a.go'', Name = ''Foo'', Kind = ''func'', Signature = ''()'', Line = 9\<rparr>]) 1 =
       9223372036854775807"
proof -
  let ?ts = "[\<lparr>File = ''b.go'', Name = ''Bar'', Kind = ''func'', Signature = ''()'', Line = 15\<rparr>,
       \<lparr>File = ''a.go'', Name = ''Foo'', Kind = ''func'', Signature = ''()'', Line = 9\<rparr>]"
  have s: "sort_Sort ?ts =
      [\<lparr>File = ''a.go'', Name = ''Foo'', Kind = ''func'', Signature = ''()'', Line = 9\<rparr>,
       \<lparr>File = ''b.go'', Name = ''Bar'', Kind = ''func'', Signature = ''()'', Line = 15\<rparr>]"
    by (simp add: sort_Sort_insr)
  show ?thesis
    using implicit_end_line [of 0 "sort_Sort ?ts"] implicit_end_line [of 1 "sort_Sort ?ts"]
    by (simp add: s MaxInt64_def)
qed








section \<open>The assembled events\<close>

lemma emit_fields:
  "Updates (emit c out u subject) = Updates out @ [u]"
  "SubscriptionUpdates (emit c out u subject) = SubscriptionUpdates out @ subsOf c subject"
  by (simp_all add: emit_def subsOf_def)

lemma foldl_emit_Updates:
  "Updates (foldl (\<lambda>acc m. if P m then emit c acc (mk m) (sj m) else acc) out ms)
   = Updates out @ map mk (filter P ms)"
  by (induction ms arbitrary: out) (simp_all add: emit_fields)

lemma foldl_emit_Subs:
  "SubscriptionUpdates (foldl (\<lambda>acc m. if P m then emit c acc (mk m) (sj m) else acc) out ms)
   = SubscriptionUpdates out @ concat (map (\<lambda>m. subsOf c (sj m)) (filter P ms))"
  by (induction ms arbitrary: out) (simp_all add: emit_fields)

lemma emitCalls_fields:
  "Updates (emitCalls c file text out) =
     Updates out @ map (referencedUpdate c file text) (callTokens text)"
  "SubscriptionUpdates (emitCalls c file text out) =
     SubscriptionUpdates out @ concat (map (subsOf c) (callTokens text))"
  unfolding emitCalls_def callTokens_def
  by (simp_all add: foldl_emit_Updates foldl_emit_Subs)

lemma emitReact_fields:
  "Updates (emitReact c file text out) =
     Updates out @ map (reactUpdate c file text) (reactTokens text)"
  "SubscriptionUpdates (emitReact c file text out) =
     SubscriptionUpdates out @ concat (map (subsOf c) (reactTokens text))"
  unfolding emitReact_def reactTokens_def
  by (simp_all add: foldl_emit_Updates foldl_emit_Subs)

lemma emitLine_fields:
  "Updates (emitLine c file out l) =
     Updates out @ map (referencedUpdate c file (Text l)) (callTokens (Text l))
       @ map (reactUpdate c file (Text l)) (reactTokens (Text l))"
  "SubscriptionUpdates (emitLine c file out l) =
     SubscriptionUpdates out @ concat (map (subsOf c) (callTokens (Text l) @ reactTokens (Text l)))"
  by (simp_all add: emitLine_def emitCalls_fields emitReact_fields)

lemma emitHunk_Updates:
  "Updates (foldl (emitLine c file) out ls) =
     Updates out @ concat (map (\<lambda>l. map (referencedUpdate c file (Text l)) (callTokens (Text l))
                                    @ map (reactUpdate c file (Text l)) (reactTokens (Text l))) ls)"
  by (induction ls arbitrary: out) (simp_all add: emitLine_fields)

lemma emitHunk_Subs:
  "SubscriptionUpdates (foldl (emitLine c file) out ls) =
     SubscriptionUpdates out @
       concat (map (\<lambda>l. concat (map (subsOf c) (callTokens (Text l) @ reactTokens (Text l)))) ls)"
  by (induction ls arbitrary: out) (simp_all add: emitLine_fields)

lemma emitReferences_Updates:
  "Updates (emitReferences c out hds) =
     Updates out @ concat (map (\<lambda>h. concat (map
        (\<lambda>l. map (referencedUpdate c (Filename h) (Text l)) (callTokens (Text l))
             @ map (reactUpdate c (Filename h) (Text l)) (reactTokens (Text l))) (New h))) hds)"
  unfolding emitReferences_def
  by (induction hds arbitrary: out) (simp_all add: emitHunk_def emitHunk_Updates)

lemma emitReferences_Subs:
  "SubscriptionUpdates (emitReferences c out hds) =
     SubscriptionUpdates out @ concat (map (\<lambda>h. concat (map
        (\<lambda>l. concat (map (subsOf c) (callTokens (Text l) @ reactTokens (Text l)))) (New h))) hds)"
  unfolding emitReferences_def
  by (induction hds arbitrary: out) (simp_all add: emitHunk_def emitHunk_Subs)

lemma emitModified_fields:
  "Updates (foldl (emitModified c) out tags) = Updates out @ map (modifiedUpdate c) tags"
  "SubscriptionUpdates (foldl (emitModified c) out tags) =
     SubscriptionUpdates out @ concat (map (\<lambda>t. subsOf c (Name t)) tags)"
  by (induction tags arbitrary: out) (simp_all add: emitModified_def emit_fields)

lemma assemble_Updates:
  "Updates (assemble c tags hds) =
     map (modifiedUpdate c) (changedTags tags hds) @
     concat (map (\<lambda>h. concat (map
        (\<lambda>l. map (referencedUpdate c (Filename h) (Text l)) (callTokens (Text l))
             @ map (reactUpdate c (Filename h) (Text l)) (reactTokens (Text l))) (New h))) hds)"
  by (simp add: assemble_def emitReferences_Updates emitModified_fields)

lemma assemble_Subs:
  "SubscriptionUpdates (assemble c tags hds) =
     concat (map (\<lambda>t. subsOf c (Name t)) (changedTags tags hds)) @
     concat (map (\<lambda>h. concat (map
        (\<lambda>l. concat (map (subsOf c) (callTokens (Text l) @ reactTokens (Text l)))) (New h))) hds)"
  by (simp add: assemble_def emitReferences_Subs emitModified_fields)

lemma assemble_Updates_cases:
  assumes "u \<in> set (Updates (assemble c tags hds))"
  shows "(\<exists>t\<in>set (changedTags tags hds). u = modifiedUpdate c t)
       \<or> (\<exists>h\<in>set hds. \<exists>l\<in>set (New h).
            (\<exists>m\<in>set (callTokens (Text l)). u = referencedUpdate c (Filename h) (Text l) m)
          \<or> (\<exists>m\<in>set (reactTokens (Text l)). u = reactUpdate c (Filename h) (Text l) m))"
  using assms unfolding assemble_Updates by simp blast

lemma ID_simps:
  "ID (Event (modifiedUpdate c t)) = ''modified:'' @ Name t @ '':'' @ File t @ '':'' @ commitURL c"
  "ID (Event (referencedUpdate c file text m)) = ''referenced:'' @ m @ '':'' @ file @ '':'' @ commitURL c"
  "ID (Event (reactUpdate c file text m)) = ''referenced(react):'' @ m @ '':'' @ file @ '':'' @ commitURL c"
  by (simp_all add: modifiedUpdate_def referencedUpdate_def reactUpdate_def)

lemma Type_simps:
  "Type (Event (modifiedUpdate c t)) = EvtTypeModified"
  "Type (Event (referencedUpdate c file text m)) = EvtTypeReferenced"
  "Type (Event (reactUpdate c file text m)) = EvtTypeReferenced"
  by (simp_all add: modifiedUpdate_def referencedUpdate_def reactUpdate_def)

lemma assemble_IDs:
  "map (\<lambda>u. ID (Event u)) (Updates (assemble c tags hds)) =
     map (\<lambda>t. ''modified:'' @ Name t @ '':'' @ File t @ '':'' @ commitURL c) (changedTags tags hds) @
     concat (map (\<lambda>h. concat (map
        (\<lambda>l. map (\<lambda>m. ''referenced:'' @ m @ '':'' @ Filename h @ '':'' @ commitURL c)
                 (callTokens (Text l))
             @ map (\<lambda>m. ''referenced(react):'' @ m @ '':'' @ Filename h @ '':'' @ commitURL c)
                 (reactTokens (Text l))) (New h))) hds)"
  by (simp add: assemble_Updates map_concat comp_def ID_simps)

text \<open>
  C8. Two runs of the assembly on the same tags and hunks, for commits that agree on the
  commit URL and on the author's two names (identical metadata in particular), produce
  the same list of event IDs and the same list of subscription updates.
\<close>

theorem assemble_deterministic:
  assumes "commitURL c = commitURL c'"
      and "authorName c = authorName c'" and "authorFirstName c = authorFirstName c'"
      and "tags = tags'" and "hds = hds'"
  shows "map (\<lambda>u. ID (Event u)) (Updates (assemble c tags hds)) =
           map (\<lambda>u. ID (Event u)) (Updates (assemble c' tags' hds'))
       \<and> SubscriptionUpdates (assemble c tags hds) = SubscriptionUpdates (assemble c' tags' hds')"
proof -
  have "subsOf c = subsOf c'" using assms(2,3) by (simp add: subsOf_def fun_eq_iff)
  then show ?thesis using assms(1,4,5) by (simp add: assemble_IDs assemble_Subs)
qed

lemmas scan_eval =
  callTokens_def reactTokens_def typescriptRx_FindStringSubmatch_def typescriptAt_def
  runeLen_def isCont_def isWord_def isAlnum_def isUpper_def isLower_def isDigit_def
  ignore_def ignore_keys_def Let_def

lemma example_tokens:
  "callTokens ''+doStuff(x, y)'' = [''doStuff'']"
  "reactTokens ''+doStuff(x, y)'' = []"
  "callTokens ''+<Foo>'' = []"
  "reactTokens ''+<Foo>'' = [''<Foo>'', ''Foo'']"
  "callTokens ''+make([]int, 0)'' = []"
  by (simp_all add: scan_eval)

theorem assemble_deterministic_witness:
  "map (\<lambda>u. ID (Event u)) (Updates (assemble
      \<lparr>remoteURL = ''R'', commitURL = ''U'', branch = ''B'', authorName = ''Ann Lee'',
       authorFirstName = ''Ann'', authorEmail = ''a@x'', commitTimestamp = 7\<rparr>
      [\<lparr>File = ''a.go'', Name = ''Foo'', Kind = ''func'', Signature = ''()'', Line = 9\<rparr>]
      [\<lparr>Filename = ''a.go'', OldStart = 10, OldEnd = 10, Old = [], NewStart = 10, NewEnd = 12,
        New = [\<lparr>Num = 11, Text = ''+doStuff(x, y)''\<rparr>]\<rparr>])) =
   map (\<lambda>u. ID (Event u)) (Updates (assemble
      \<lparr>remoteURL = ''R2'', commitURL = ''U'', branch = ''B2'', authorName = ''Ann Lee'',
       authorFirstName = ''Ann'', authorEmail = ''b@x'', commitTimestamp = 8\<rparr>
      [\<lparr>File = ''a.go'', Name = ''Foo'', Kind = ''func'', Signature = ''()'', Line = 9\<rparr>]
      [\<lparr>Filename = ''a.go'', OldStart = 10, OldEnd = 10, Old = [], NewStart = 10, NewEnd = 12,
        New = [\<lparr>Num = 11, Text = ''+doStuff(x, y)''\<rparr>]\<rparr>]))
   \<and> SubscriptionUpdates (assemble
      \<lparr>remoteURL = ''R'', commitURL = ''U'', branch = ''B'', authorName = ''Ann Lee'',
       authorFirstName = ''Ann'', authorEmail = ''a@x'', commitTimestamp = 7\<rparr>
      [\<lparr>File = ''a.go'', Name = ''Foo'', Kind = ''func'', Signature = ''()'', Line = 9\<rparr>]
      [\<lparr>Filename = ''a.go'', OldStart = 10, OldEnd = 10, Old = [], NewStart = 10, NewEnd = 12,
        New = [\<lparr>Num = 11, Text = ''+doStuff(x, y)''\<rparr>]\<rparr>]) =
   SubscriptionUpdates (assemble
      \<lparr>remoteURL = ''R2'', commitURL = ''U'', branch = ''B2'', authorName = ''Ann Lee'',
       authorFirstName = ''Ann'', authorEmail = ''b@x'', commitTimestamp = 8\<rparr>
      [\<lparr>File = ''a.go'', Name = ''Foo'', Kind = ''func'', Signature = ''()'', Line = 9\<rparr>]
      [\<lparr>Filename = ''a.go'', OldStart = 10, OldEnd = 10, Old = [], NewStart = 10, NewEnd = 12,
        New = [\<lparr>Num = 11, Text = ''+doStuff(x, y)''\<rparr>]\<rparr>])"
  by (rule assemble_deterministic) simp_all

text \<open>
  C6 (the code at the failing input). For the added line \<open>+<Foo>\<close> the loop over the
  result of \<open>FindStringSubmatch\<close> emits two events, one for the whole match \<open><Foo>\<close> and
  one for the captured word \<open>Foo\<close>.
\<close>

theorem react_line_emits_two:
  "map (\<lambda>u. ID (Event u))
     (Updates (emitLine c ''a.go'' \<lparr>Updates = [], SubscriptionUpdates = []\<rparr>
                 \<lparr>Num = 12, Text = ''+<Foo>''\<rparr>)) =
   [''referenced(react):<Foo>:a.go:'' @ commitURL c, ''referenced(react):Foo:a.go:'' @ commitURL c]"
  by (simp add: emitLine_fields example_tokens ID_simps)

lemma Execute_Inr:
  "Execute c b Parse2 = Inr out \<Longrightarrow>
   \<exists>tags. Parse2 (filesOf (parseDiff b)) = Inr tags \<and> out = assemble c (sort_Sort tags) (parseDiff b)"
  by (auto simp: Execute_def Let_def split: sum.splits)

text \<open>
  C5 (amended). The ID of every event that Execute emits is
  \<open>kind:subject:file:commitURL\<close>, where kind is \<open>modified\<close> for an event of type Modified
  and \<open>referenced\<close> or \<open>referenced(react)\<close> for an event of type Referenced.
\<close>

theorem event_id_form:
  assumes "Execute c b Parse2 = Inr out" and "u \<in> set (Updates out)"
  shows "\<exists>kind subject file.
           ID (Event u) = kind @ '':'' @ subject @ '':'' @ file @ '':'' @ commitURL c
         \<and> (kind = ''modified'' \<and> Type (Event u) = EvtTypeModified
            \<or> (kind = ''referenced'' \<or> kind = ''referenced(react)'')
               \<and> Type (Event u) = EvtTypeReferenced)"
proof -
  from assms obtain tags where "u \<in> set (Updates (assemble c (sort_Sort tags) (parseDiff b)))"
    by (auto dest: Execute_Inr)
  then consider
      t where "u = modifiedUpdate c t"
    | f tx m where "u = referencedUpdate c f tx m"
    | f tx m where "u = reactUpdate c f tx m"
    by (auto dest!: assemble_Updates_cases)
  then show ?thesis
  proof cases
    case 1
    have "ID (Event u) = ''modified'' @ '':'' @ Name t @ '':'' @ File t @ '':'' @ commitURL c"
      by (simp add: 1 ID_simps)
    then show ?thesis using 1 by (blast intro: Type_simps)
  next
    case 2
    have "ID (Event u) = ''referenced'' @ '':'' @ m @ '':'' @ f @ '':'' @ commitURL c"
      by (simp add: 2 ID_simps)
    then show ?thesis using 2 by (blast intro: Type_simps)
  next
    case 3
    have "ID (Event u) = ''referenced(react)'' @ '':'' @ m @ '':'' @ f @ '':'' @ commitURL c"
      by (simp add: 3 ID_simps)
    then show ?thesis using 3 by (blast intro: Type_simps)
  qed
qed

lemma example_parse:
  "parseDiff ''diff --git a/a.go b/a.go\<newline>@@ -10,1 +10,3 @@\<newline> ctx\<newline>+doStuff(x, y)\<newline>+<Foo>'' =
     [\<lparr>Filename = ''a.go'', OldStart = 10, OldEnd = 10, Old = [], NewStart = 10, NewEnd = 12,
       New = [\<lparr>Num = 11, Text = ''+doStuff(x, y)''\<rparr>, \<lparr>Num = 12, Text = ''+<Foo>''\<rparr>]\<rparr>]"
  by (simp add: parseDiff_def parseLines_def parser_init_def parse_eval)

theorem event_id_form_witness:
  "\<exists>kind subject file.
      ID (Event (reactUpdate
        \<lparr>remoteURL = ''R'', commitURL = ''U'', branch = ''B'', authorName = ''Ann Lee'',
         authorFirstName = ''Ann'', authorEmail = ''a@x'', commitTimestamp = 7\<rparr>
        ''a.go'' ''+<Foo>'' ''Foo'')) = kind @ '':'' @ subject @ '':'' @ file @ '':'' @ ''U''
    \<and> (kind = ''modified'' \<and> Type (Event (reactUpdate
        \<lparr>remoteURL = ''R'', commitURL = ''U'', branch = ''B'', authorName = ''Ann Lee'',
         authorFirstName = ''Ann'', authorEmail = ''a@x'', commitTimestamp = 7\<rparr>
        ''a.go'' ''+<Foo>'' ''Foo'')) = EvtTypeModified
       \<or> (kind = ''referenced'' \<or> kind = ''referenced(react)'')
          \<and> Type (Event (reactUpdate
        \<lparr>remoteURL = ''R'', commitURL = ''U'', branch = ''B'', authorName = ''Ann Lee'',
         authorFirstName = ''Ann'', authorEmail = ''a@x'', commitTimestamp = 7\<rparr>
        ''a.go'' ''+<Foo>'' ''Foo'')) = EvtTypeReferenced)"
proof -
  let ?c = "\<lparr>remoteURL = ''R'', commitURL = ''U'', branch = ''B'', authorName = ''Ann Lee'',
         authorFirstName = ''Ann'', authorEmail = ''a@x'', commitTimestamp = 7\<rparr>"
  let ?b = "''diff --git a/a.go b/a.go\<newline>@@ -10,1 +10,3 @@\<newline> ctx\<newline>+doStuff(x, y)\<newline>+<Foo>''"
  let ?out = "assemble ?c (sort_Sort []) (parseDiff ?b)"
  have run: "Execute ?c ?b (\<lambda>files. Inr []) = Inr ?out"
    by (simp add: Execute_def)
  have mem: "reactUpdate ?c ''a.go'' ''+<Foo>'' ''Foo'' \<in> set (Updates ?out)"
    unfolding example_parse by (simp add: assemble_Updates example_tokens)
  show ?thesis
    using event_id_form [OF run mem] by simp
qed

theorem event_id_kind_counterexample:
  "ID (Event (last (Updates (assemble
      \<lparr>remoteURL = ''R'', commitURL = ''U'', branch = ''B'', authorName = ''Ann Lee'',
       authorFirstName = ''Ann'', authorEmail = ''a@x'', commitTimestamp = 7\<rparr>
      []
      [\<lparr>Filename = ''a.go'', OldStart = 10, OldEnd = 10, Old = [], NewStart = 10, NewEnd = 12,
        New = [\<lparr>Num = 12, Text = ''+<Foo>''\<rparr>]\<rparr>])))) = ''referenced(react):Foo:a.go:U''
   \<and> \<not> HasPrefix ''referenced(react):Foo:a.go:U'' ''modified:''
   \<and> \<not> HasPrefix ''referenced(react):Foo:a.go:U'' ''referenced:''
   \<and> \<not> HasPrefix ''referenced(react):Foo:a.go:U'' ''referenced(markup):''"
  by (simp add: assemble_Updates example_tokens ID_simps HasPrefix_def changedTags_def
      changedIndices_def)

section \<open>Where reference events come from\<close>











end
